theory Spec2Isabelle
  imports Main "HOL-Library.Char_ord" "HOL-Library.List_Lexorder" "HOL-Library.Multiset"
begin

section \<open>tap-mongodb: the collection stream (src/tap\_mongodb/streams.py)\<close>

text \<open>
  The stream class \<^verbatim>\<open>CollectionStream\<close> has two methods of interest:
  \<^verbatim>\<open>_increment_stream_state\<close>, which advances the bookmark of a stream after a
  record, and \<^verbatim>\<open>get_records\<close>, the generator that reads either an ordered
  snapshot (Incremental) or a change stream (LogBased). Exceptions are values of the
  type \<open>error\<close>; the mutable state dictionary, the logger and the generator's
  output are passed explicitly.
\<close>

subsection \<open>Errors and log entries\<close>

datatype error =
    ValueError_unrecognized_replication_method string
  | ValueError_no_replication_key string string
  | ValueError_strptime string
  | InvalidStreamSortException string string
  | KeyError string
  | TypeError_NoneType_not_iterable
  | TypeError_position_not_text string
  | OperationFailure string

datatype log_entry =
    Critical_unrecognized_replication_method string
  | Warning_cannot_parse_ObjectId string
  | Info_using_start_date_str string

subsection \<open>Configuration and the stream object\<close>

text \<open>
  \<^verbatim>\<open>self.config\<close> is a dictionary; the three options that the source reads are
  fields here, \<open>None\<close> when the key is absent.
\<close>

record config =
  add_record_metadata :: "bool option"
  start_date :: "string option"
  operation_types :: "string list option"

text \<open>
  The attributes of \<^verbatim>\<open>self\<close> that the two methods read. The class sets
  \<^verbatim>\<open>replication_key = "_id"\<close>; the other attributes come from the base class.
\<close>

record stream =
  name :: string
  replication_method :: string
  replication_key :: "string option"
  is_sorted :: bool
  check_sorted :: bool
  state_partitioning_keys :: "string list option"
  config :: config

text \<open>
  Modelled from the spec: the constants \<^verbatim>\<open>REPLICATION_INCREMENTAL\<close> and
  \<^verbatim>\<open>REPLICATION_LOG_BASED\<close> are imported from singer\_sdk.streams.core, which is
  not part of the sources. The spec names the two modes Incremental and LogBased; they
  are two different strings.
\<close>

definition REPLICATION_INCREMENTAL :: string where
  "REPLICATION_INCREMENTAL = ''INCREMENTAL''"

definition REPLICATION_LOG_BASED :: string where
  "REPLICATION_LOG_BASED = ''LOG_BASED''"

subsection \<open>Emitted records\<close>

text \<open>
  A record leaving \<^verbatim>\<open>get_records\<close> is a Python dictionary built by a literal and
  extended by assignments: an association list in insertion order. A value is a text, a
  document, \<^verbatim>\<open>None\<close> or a namespace.
\<close>

datatype ('d, 'n) field = Text string | Document 'd | Null | Namespace 'n

type_synonym ('d, 'n) parsed_record = "(string \<times> ('d, 'n) field) list"

subsection \<open>The bookmark store\<close>

text \<open>
  The state holds, for every context (partition), the last replication-key value, or
  nothing when the stream never ran there.
\<close>

type_synonym 'c state = "'c \<Rightarrow> string option"

text \<open>
  Modelled from the spec: \<^verbatim>\<open>get_context_state\<close> of the base class is not part of
  the sources. Spec 4.1, \<^verbatim>\<open>get(stream, partition)\<close>: returns the current position
  or indicates that there is none. The entry that the call creates when none exists
  holds no position.
\<close>

definition get_context_state :: "'c state \<Rightarrow> 'c \<Rightarrow> string option" where
  "get_context_state st context = st context"

text \<open>
  Modelled from the spec: \<^verbatim>\<open>get_starting_replication_key_value\<close> of the base
  class is not part of the sources. Spec 2, data flow: the engine asks the bookmark store
  for the current position and opens the reader there.
\<close>

definition get_starting_replication_key_value :: "'c state \<Rightarrow> 'c \<Rightarrow> string option" where
  "get_starting_replication_key_value st context = st context"

text \<open>
  Modelled from the spec: \<^verbatim>\<open>increment_state\<close> of singer\_sdk.helpers.\_state is not
  part of the sources. Spec 4.1, \<^verbatim>\<open>advance\<close>: with \<^verbatim>\<open>is_sorted\<close> true the call
  fails when the candidate compares less than the stored position under lexical string
  comparison, and stores the candidate otherwise; with \<^verbatim>\<open>is_sorted\<close> false the
  candidate overwrites the stored position, no comparison made. The spec gives
  \<^verbatim>\<open>check_sorted\<close> no effect. The candidate is
  \<^verbatim>\<open>latest_record[replication_key]\<close>; a position is a text.
\<close>

definition increment_state ::
  "string option \<Rightarrow> string \<Rightarrow> ('d, 'n) parsed_record \<Rightarrow> bool \<Rightarrow> bool \<Rightarrow> error + string option"
where
  "increment_state state_dict replication_key' latest_record is_sorted' check_sorted' =
     (case map_of latest_record replication_key' of
        None \<Rightarrow> Inl (KeyError replication_key')
      | Some (Text candidate) \<Rightarrow>
          (if is_sorted' then
             (case state_dict of
                None \<Rightarrow> Inr (Some candidate)
              | Some stored \<Rightarrow>
                  (if candidate < stored then Inl (InvalidStreamSortException candidate stored)
                   else Inr (Some candidate)))
           else Inr (Some candidate))
      | Some _ \<Rightarrow> Inl (TypeError_position_not_text replication_key'))"

text \<open>
  \<^verbatim>\<open>_increment_stream_state\<close> (lines 49 to 94). The result is the exception raised,
  if any, the state afterwards and the log lines written.
\<close>

definition increment_stream_state ::
  "stream \<Rightarrow> ('d, 'n) parsed_record \<Rightarrow> 'c \<Rightarrow> 'c state \<Rightarrow> error option \<times> 'c state \<times> log_entry list"
where
  "increment_stream_state self latest_record context st =
     (let state_dict = get_context_state st context in
      if replication_method self \<notin> {REPLICATION_INCREMENTAL, REPLICATION_LOG_BASED} then
        (Some (ValueError_unrecognized_replication_method (replication_method self)), st,
         [Critical_unrecognized_replication_method (replication_method self)])
      else if replication_key self = None \<or> replication_key self = Some [] then
        (Some (ValueError_no_replication_key (name self) (replication_method self)), st, [])
      else
        (let treat_as_sorted = is_sorted self;
             treat_as_sorted =
               (if \<not> treat_as_sorted \<and> state_partitioning_keys self \<noteq> None then False
                else treat_as_sorted)
         in case increment_state state_dict (the (replication_key self)) latest_record
                   treat_as_sorted (check_sorted self) of
              Inl e \<Rightarrow> (Some e, st, [])
            | Inr b \<Rightarrow> (None, st(context := b), [])))"

text \<open>
  The calls of \<^verbatim>\<open>_increment_stream_state\<close> for a sequence of records, one after
  the other on the same state; an exception ends the sequence.
\<close>

fun increment_stream_state_seq ::
  "stream \<Rightarrow> ('d, 'n) parsed_record list \<Rightarrow> 'c \<Rightarrow> 'c state \<Rightarrow> error option \<times> 'c state"
where
  "increment_stream_state_seq self [] context st = (None, st)"
| "increment_stream_state_seq self (r # rs) context st =
     (case increment_stream_state self r context st of
        (Some e, st', _) \<Rightarrow> (Some e, st')
      | (None, st', _) \<Rightarrow> increment_stream_state_seq self rs context st')"

subsection \<open>The source client\<close>

text \<open>
  A document of the collection: its \<^verbatim>\<open>_id\<close>, an ObjectId, and the rest of it.
  The identifiers are ordered as the source orders them.
\<close>

record ('oid, 'b) document =
  doc_id :: 'oid
  doc_rest :: 'b

text \<open>
  The functions of bson, singer\_sdk and datetime that \<^verbatim>\<open>get_records\<close> calls;
  they are not part of the sources and are parameters here.
  \<^item> \<open>ObjectId\<close>: \<^verbatim>\<open>ObjectId(bookmark)\<close>, \<open>None\<close> when it raises InvalidId;
  \<^item> \<open>ObjectId_str\<close>: \<^verbatim>\<open>str(object_id)\<close>;
  \<^item> \<open>ObjectId_from_datetime\<close>: \<^verbatim>\<open>ObjectId.from_datetime\<close>;
  \<^item> \<open>strptime_to_utc\<close>: \<open>None\<close> when the text is no date;
  \<^item> \<open>as_datetime_isoformat\<close>: \<^verbatim>\<open>ts.as_datetime().isoformat()\<close> of a cluster time;
  \<^item> \<open>utcnow_isoformat k\<close>: \<^verbatim>\<open>datetime.utcnow().isoformat()\<close> at its call number
    \<open>k\<close> (one call for each record emitted with metadata).
\<close>

record ('oid, 'dt, 'ts) library =
  ObjectId :: "string \<Rightarrow> 'oid option"
  ObjectId_str :: "'oid \<Rightarrow> string"
  ObjectId_from_datetime :: "'dt \<Rightarrow> 'oid"
  strptime_to_utc :: "string \<Rightarrow> 'dt option"
  as_datetime_isoformat :: "'ts \<Rightarrow> string"
  utcnow_isoformat :: "nat \<Rightarrow> string"

text \<open>
  A change event is a dictionary; a field is \<open>None\<close> when the event has no such
  key, and subscripting it raises KeyError. The value under \<^verbatim>\<open>_id\<close> is itself a
  dictionary, the resume token, read at \<^verbatim>\<open>_data\<close>. The full document may be
  present and null.
\<close>

record resume_token =
  token_data :: "string option"

record ('d, 'n, 'ts) change_event =
  event_id :: "resume_token option"
  operationType :: "string option"
  clusterTime :: "'ts option"
  fullDocument :: "'d option option"
  ns :: "'n option"

text \<open>
  The keyword arguments of \<^verbatim>\<open>watch\<close>, and the change stream it returns:
  \<open>alive k\<close> is \<^verbatim>\<open>change_stream.alive\<close> and \<open>try_next k\<close> the result of
  \<^verbatim>\<open>change_stream.try_next()\<close> after \<open>k\<close> earlier polls.
\<close>

record change_stream_options =
  full_document :: string
  resume_after :: "string option"

record 'e change_stream =
  alive :: "nat \<Rightarrow> bool"
  try_next :: "nat \<Rightarrow> 'e option"

text \<open>
  The collection: the documents that a query sees, and \<^verbatim>\<open>watch\<close>, which opens a
  change stream or fails (a rejected resume token).
\<close>

record ('oid, 'b, 'e) collection =
  documents :: "('oid, 'b) document list"
  watch :: "change_stream_options \<Rightarrow> error + 'e change_stream"

text \<open>
  Modelled from the spec: pymongo's \<^verbatim>\<open>find\<close> and \<^verbatim>\<open>sort\<close> are not part of the
  sources. Spec 6: an ordered-scan query with a greater-than identifier filter and an
  ascending sort order over that identifier. This is
  \<^verbatim>\<open>find({"_id": {"$gt": start_date}}).sort([("_id", ASCENDING)])\<close>. When the filter
  value is \<^verbatim>\<open>None\<close> no identifier compares greater (MongoDB compares a value
  only with values of its own type), and the query matches nothing.
\<close>

definition find_gt_sort_ascending ::
  "('oid::linorder, 'b) document list \<Rightarrow> 'oid option \<Rightarrow> ('oid, 'b) document list"
where
  "find_gt_sort_ascending docs start =
     (case start of
        None \<Rightarrow> []
      | Some s \<Rightarrow> sort_key doc_id (filter (\<lambda>d. s < doc_id d) docs))"

subsection \<open>get\_records\<close>

text \<open>
  What a run of the generator did: the records it yielded, how it ended, the log lines
  and the options of the change stream it opened, if it opened one. \<open>Draining\<close> is a
  poll loop that has not ended within the given number of iterations.
\<close>

datatype outcome = Exhausted | Raised error | Draining

record ('d, 'n) run =
  yielded :: "('d, 'n) parsed_record list"
  outcome :: outcome
  log :: "log_entry list"
  watched :: "change_stream_options option"

text \<open>Lines 103 to 115: the starting identifier of the ordered scan.\<close>

definition resolve_start_date ::
  "('oid, 'dt, 'ts) library \<Rightarrow> config \<Rightarrow> string option \<Rightarrow> (error + 'oid option) \<times> log_entry list"
where
  "resolve_start_date lib cfg bookmark =
     (if bookmark \<noteq> None \<and> bookmark \<noteq> Some [] then
        (case ObjectId lib (the bookmark) of
           Some oid \<Rightarrow> (Inr (Some oid), [])
         | None \<Rightarrow> (Inr None, [Warning_cannot_parse_ObjectId (the bookmark)]))
      else
        (let start_date_str = (case start_date cfg of None \<Rightarrow> ''1970-01-01'' | Some s \<Rightarrow> s)
         in case strptime_to_utc lib start_date_str of
              None \<Rightarrow> (Inl (ValueError_strptime start_date_str),
                        [Info_using_start_date_str start_date_str])
            | Some start_date_dt \<Rightarrow>
                (Inr (Some (ObjectId_from_datetime lib start_date_dt)),
                 [Info_using_start_date_str start_date_str])))"

text \<open>Lines 120 to 126: the record emitted for the \<open>k\<close>-th document of the scan.\<close>

definition parsed_record_incremental ::
  "('oid, 'dt, 'ts) library \<Rightarrow> bool \<Rightarrow> nat \<Rightarrow> ('oid, 'b) document
     \<Rightarrow> (('oid, 'b) document, 'n) parsed_record"
where
  "parsed_record_incremental lib should_add_metadata k record' =
     (let object_id = doc_id record' in
      [(''_id'', Text (ObjectId_str lib object_id)), (''document'', Document record')]
      @ (if should_add_metadata then [(''_sdc_batched_at'', Text (utcnow_isoformat lib k))]
         else []))"

text \<open>Lines 153 to 174: the record emitted for an event whose operation type passed.\<close>

definition parsed_record_log_based ::
  "('oid, 'dt, 'ts) library \<Rightarrow> bool \<Rightarrow> nat \<Rightarrow> string \<Rightarrow> ('d, 'n, 'ts) change_event
     \<Rightarrow> error + ('d, 'n) parsed_record"
where
  "parsed_record_log_based lib should_add_metadata k operation_type record' =
     (case clusterTime record' of
        None \<Rightarrow> Inl (KeyError ''clusterTime'')
      | Some ts \<Rightarrow>
     (let cluster_time = as_datetime_isoformat lib ts in
      case event_id record' of
        None \<Rightarrow> Inl (KeyError ''_id'')
      | Some token \<Rightarrow>
     (case token_data token of
        None \<Rightarrow> Inl (KeyError ''_data'')
      | Some data \<Rightarrow>
     (case fullDocument record' of
        None \<Rightarrow> Inl (KeyError ''fullDocument'')
      | Some full \<Rightarrow>
     (case ns record' of
        None \<Rightarrow> Inl (KeyError ''ns'')
      | Some namespace \<Rightarrow>
          Inr ([(''_id'', Text data),
                (''document'', (case full of None \<Rightarrow> Null | Some d \<Rightarrow> Document d)),
                (''operationType'', Text operation_type),
                (''clusterTime'', Text cluster_time),
                (''ns'', Namespace namespace)]
               @ (if should_add_metadata then
                    [(''_sdc_extracted_at'', Text cluster_time),
                     (''_sdc_batched_at'', Text (utcnow_isoformat lib k))]
                    @ (if operation_type = ''delete''
                       then [(''_sdc_deleted_at'', Text cluster_time)] else [])
                  else [])))))))"

text \<open>
  The variables of the poll loop (lines 134 to 176): the number of polls made, the two
  flags and the records yielded so far.
\<close>

record ('d, 'n) loop_state =
  polls :: nat
  has_seen_a_record :: bool
  keep_open :: bool
  out :: "('d, 'n) parsed_record list"

text \<open>
  One iteration of the loop body (lines 138 to 176), entered with the loop condition
  true. \<open>Inl\<close> is an exception leaving the loop, with the state at that point.
\<close>

definition loop_body ::
  "('oid, 'dt, 'ts) library \<Rightarrow> bool \<Rightarrow> string set \<Rightarrow> ('d, 'n, 'ts) change_event change_stream
     \<Rightarrow> ('d, 'n) loop_state \<Rightarrow> (error \<times> ('d, 'n) loop_state) + ('d, 'n) loop_state"
where
  "loop_body lib should_add_metadata operation_types_allowlist change_stream' s =
     (let record' = try_next change_stream' (polls s);
          s = s\<lparr>polls := Suc (polls s)\<rparr>;
          s = (if record' = None \<and> has_seen_a_record s then s\<lparr>keep_open := False\<rparr> else s)
      in case record' of
           None \<Rightarrow> Inr s
         | Some ev \<Rightarrow>
             (case operationType ev of
                None \<Rightarrow> Inl (KeyError ''operationType'', s)
              | Some operation_type \<Rightarrow>
                  if operation_type \<notin> operation_types_allowlist then Inr s
                  else
                    (case parsed_record_log_based lib should_add_metadata (length (out s))
                            operation_type ev of
                       Inl e \<Rightarrow> Inl (e, s)
                     | Inr parsed_record' \<Rightarrow>
                         Inr (s\<lparr>out := out s @ [parsed_record'],
                                has_seen_a_record := True\<rparr>))))"

text \<open>
  The loop \<^verbatim>\<open>while change_stream.alive and keep_open\<close>, run for at most the given
  number of iterations.
\<close>

fun drain ::
  "nat \<Rightarrow> ('oid, 'dt, 'ts) library \<Rightarrow> bool \<Rightarrow> string set
     \<Rightarrow> ('d, 'n, 'ts) change_event change_stream
     \<Rightarrow> ('d, 'n) loop_state \<Rightarrow> ('d, 'n) loop_state \<times> outcome"
where
  "drain 0 lib md allow cs s = (s, Draining)"
| "drain (Suc fuel) lib md allow cs s =
     (if alive cs (polls s) \<and> keep_open s then
        (case loop_body lib md allow cs s of
           Inl (e, s') \<Rightarrow> (s', Raised e)
         | Inr s' \<Rightarrow> drain fuel lib md allow cs s')
      else (s, Exhausted))"

text \<open>
  \<^verbatim>\<open>get_records\<close> (lines 96 to 184). \<open>bookmark\<close> is the value that
  \<^verbatim>\<open>self.get_starting_replication_key_value(context)\<close> returned, and \<open>fuel\<close>
  bounds the iterations of the poll loop.
\<close>

definition get_records ::
  "('oid::linorder, 'dt, 'ts) library \<Rightarrow> stream
     \<Rightarrow> ('oid, 'b, (('oid, 'b) document, 'n, 'ts) change_event) collection
     \<Rightarrow> string option \<Rightarrow> nat \<Rightarrow> (('oid, 'b) document, 'n) run"
where
  "get_records lib self collection' bookmark fuel =
     (let should_add_metadata =
            (case add_record_metadata (config self) of None \<Rightarrow> False | Some b \<Rightarrow> b)
      in
      if replication_method self = REPLICATION_INCREMENTAL then
        (case resolve_start_date lib (config self) bookmark of
           (Inl e, lg) \<Rightarrow> \<lparr>yielded = [], outcome = Raised e, log = lg, watched = None\<rparr>
         | (Inr start_date', lg) \<Rightarrow>
             \<lparr>yielded =
                map (\<lambda>(k, record').
                       parsed_record_incremental lib should_add_metadata k record')
                  (enumerate 0
                     (find_gt_sort_ascending (documents collection') start_date')),
              outcome = Exhausted, log = lg, watched = None\<rparr>)
      else if replication_method self = REPLICATION_LOG_BASED then
        (let change_stream_options' =
               \<lparr>full_document = ''updateLookup'', resume_after = bookmark\<rparr>
         in case operation_types (config self) of
              None \<Rightarrow> \<lparr>yielded = [], outcome = Raised TypeError_NoneType_not_iterable,
                        log = [], watched = None\<rparr>
            | Some ops \<Rightarrow>
                (let operation_types_allowlist = set ops in
                 case watch collection' change_stream_options' of
                   Inl e \<Rightarrow> \<lparr>yielded = [], outcome = Raised e, log = [],
                             watched = Some change_stream_options'\<rparr>
                 | Inr change_stream' \<Rightarrow>
                     (case drain fuel lib should_add_metadata operation_types_allowlist
                             change_stream'
                             \<lparr>polls = 0, has_seen_a_record = False, keep_open = True, out = []\<rparr> of
                        (s, oc) \<Rightarrow> \<lparr>yielded = out s, outcome = oc, log = [],
                                      watched = Some change_stream_options'\<rparr>)))
      else
        \<lparr>yielded = [], outcome = Raised (ValueError_unrecognized_replication_method
                                           (replication_method self)),
         log = [Critical_unrecognized_replication_method (replication_method self)],
         watched = None\<rparr>)"

subsection \<open>Example values\<close>

text \<open>A sorted stream in Incremental mode, with the replication key of the class.\<close>

definition example_sorted_stream :: stream where
  "example_sorted_stream = \<lparr>name = ''things'', replication_method = ''INCREMENTAL'',
     replication_key = Some ''_id'', is_sorted = True, check_sorted = True,
     state_partitioning_keys = None,
     config = \<lparr>add_record_metadata = None, start_date = None, operation_types = None\<rparr>\<rparr>"

text \<open>
  A stream whose replication method is neither of the two recognised ones, and that has
  no replication key.
\<close>

definition example_full_table_stream :: stream where
  "example_full_table_stream = \<lparr>name = ''things'', replication_method = ''FULL_TABLE'',
     replication_key = None, is_sorted = False, check_sorted = True,
     state_partitioning_keys = None,
     config = \<lparr>add_record_metadata = None, start_date = None, operation_types = None\<rparr>\<rparr>"

text \<open>A LogBased stream with no replication key.\<close>

definition example_keyless_stream :: stream where
  "example_keyless_stream = \<lparr>name = ''things'', replication_method = ''LOG_BASED'',
     replication_key = None, is_sorted = False, check_sorted = True,
     state_partitioning_keys = None,
     config = \<lparr>add_record_metadata = None, start_date = None, operation_types = None\<rparr>\<rparr>"

text \<open>A sorted stream configured with state partitioning keys.\<close>

definition example_partitioned_sorted_stream :: stream where
  "example_partitioned_sorted_stream = \<lparr>name = ''things'', replication_method = ''INCREMENTAL'',
     replication_key = Some ''_id'', is_sorted = True, check_sorted = True,
     state_partitioning_keys = Some [''tenant''],
     config = \<lparr>add_record_metadata = None, start_date = None, operation_types = None\<rparr>\<rparr>"

text \<open>
  A small instance of the library functions: three identifiers with their texts, and the
  default start date.
\<close>

definition example_library :: "(nat, nat, nat) library" where
  "example_library =
     \<lparr>ObjectId = (\<lambda>s. if s = ''65a1'' then Some 1 else if s = ''65a2'' then Some 2
                       else if s = ''65a3'' then Some 3 else None),
      ObjectId_str = (\<lambda>n. if n = 1 then ''65a1'' else if n = 2 then ''65a2''
                           else if n = 3 then ''65a3'' else ''0000''),
      ObjectId_from_datetime = (\<lambda>t. t),
      strptime_to_utc = (\<lambda>s. if s = ''1970-01-01'' then Some 0 else None),
      as_datetime_isoformat = (\<lambda>t. ''2024-05-01T10:00:00''),
      utcnow_isoformat = (\<lambda>k. ''2024-05-02T08:30:00'')\<rparr>"

text \<open>An unsorted stream in Incremental mode with the default start date configured.\<close>

definition example_incremental_stream :: stream where
  "example_incremental_stream = \<lparr>name = ''things'', replication_method = ''INCREMENTAL'',
     replication_key = Some ''_id'', is_sorted = False, check_sorted = True,
     state_partitioning_keys = None,
     config = \<lparr>add_record_metadata = None, start_date = Some ''1970-01-01'',
               operation_types = None\<rparr>\<rparr>"

text \<open>A collection of three documents, stored out of order, that opens no change stream.\<close>

definition example_collection ::
  "(nat, string, ((nat, string) document, string, nat) change_event) collection" where
  "example_collection =
     \<lparr>documents = [\<lparr>doc_id = 2, doc_rest = ''two''\<rparr>, \<lparr>doc_id = 1, doc_rest = ''one''\<rparr>,
                   \<lparr>doc_id = 3, doc_rest = ''three''\<rparr>],
      watch = (\<lambda>opts. Inl (OperationFailure ''no change stream''))\<rparr>"

text \<open>A LogBased stream with metadata enabled that allows inserts and updates.\<close>

definition example_log_based_stream :: stream where
  "example_log_based_stream = \<lparr>name = ''things'', replication_method = ''LOG_BASED'',
     replication_key = Some ''_id'', is_sorted = False, check_sorted = True,
     state_partitioning_keys = None,
     config = \<lparr>add_record_metadata = Some True, start_date = None,
               operation_types = Some [''insert'', ''update'']\<rparr>\<rparr>"

text \<open>A LogBased stream with metadata enabled that allows inserts and deletes.\<close>

definition example_delete_stream :: stream where
  "example_delete_stream = \<lparr>name = ''things'', replication_method = ''LOG_BASED'',
     replication_key = Some ''_id'', is_sorted = False, check_sorted = True,
     state_partitioning_keys = None,
     config = \<lparr>add_record_metadata = Some True, start_date = None,
               operation_types = Some [''insert'', ''delete'']\<rparr>\<rparr>"

text \<open>A LogBased stream whose configuration has no \<^verbatim>\<open>operation_types\<close>.\<close>

definition example_unconfigured_stream :: stream where
  "example_unconfigured_stream = \<lparr>name = ''things'', replication_method = ''LOG_BASED'',
     replication_key = Some ''_id'', is_sorted = False, check_sorted = True,
     state_partitioning_keys = None,
     config = \<lparr>add_record_metadata = None, start_date = None, operation_types = None\<rparr>\<rparr>"

text \<open>A delete event as the source reports it: it carries no full document.\<close>

definition example_delete_event :: "((nat, string) document, string, nat) change_event" where
  "example_delete_event =
     \<lparr>event_id = Some \<lparr>token_data = Some ''8265AA''\<rparr>, operationType = Some ''delete'',
      clusterTime = Some 1714557600, fullDocument = None, ns = Some ''db.things''\<rparr>"

text \<open>An insert event with its full document.\<close>

definition example_insert_event :: "((nat, string) document, string, nat) change_event" where
  "example_insert_event =
     \<lparr>event_id = Some \<lparr>token_data = Some ''8265AB''\<rparr>, operationType = Some ''insert'',
      clusterTime = Some 1714557601,
      fullDocument = Some (Some \<lparr>doc_id = 4, doc_rest = ''four''\<rparr>), ns = Some ''db.things''\<rparr>"

text \<open>A change stream that reports a delete, then an insert, and nothing afterwards.\<close>

definition example_change_stream ::
  "((nat, string) document, string, nat) change_event change_stream" where
  "example_change_stream =
     \<lparr>alive = (\<lambda>k. True),
      try_next = (\<lambda>k. if k = 0 then Some example_delete_event
                       else if k = 1 then Some example_insert_event else None)\<rparr>"

text \<open>A change stream that stays alive and never reports an event.\<close>

definition example_idle_change_stream ::
  "((nat, string) document, string, nat) change_event change_stream" where
  "example_idle_change_stream = \<lparr>alive = (\<lambda>k. True), try_next = (\<lambda>k. None)\<rparr>"

text \<open>A change stream that stays alive and reports a delete at every poll.\<close>

definition example_deletes_change_stream ::
  "((nat, string) document, string, nat) change_event change_stream" where
  "example_deletes_change_stream =
     \<lparr>alive = (\<lambda>k. True), try_next = (\<lambda>k. Some example_delete_event)\<rparr>"

text \<open>Collections that open each of these change streams.\<close>

definition example_watched_collection ::
  "(nat, string, ((nat, string) document, string, nat) change_event) collection" where
  "example_watched_collection = \<lparr>documents = [], watch = (\<lambda>opts. Inr example_change_stream)\<rparr>"

definition example_idle_collection ::
  "(nat, string, ((nat, string) document, string, nat) change_event) collection" where
  "example_idle_collection =
     \<lparr>documents = [], watch = (\<lambda>opts. Inr example_idle_change_stream)\<rparr>"

definition example_deletes_collection ::
  "(nat, string, ((nat, string) document, string, nat) change_event) collection" where
  "example_deletes_collection =
     \<lparr>documents = [], watch = (\<lambda>opts. Inr example_deletes_change_stream)\<rparr>"

text \<open>The loop variables before the first poll, and after two polls that yielded one record.\<close>

definition example_initial_state :: "((nat, string) document, string) loop_state" where
  "example_initial_state =
     \<lparr>polls = 0, has_seen_a_record = False, keep_open = True, out = []\<rparr>"

definition example_seen_state :: "((nat, string) document, string) loop_state" where
  "example_seen_state =
     \<lparr>polls = 2, has_seen_a_record = True, keep_open = True,
      out = [[(''_id'', Text ''8265AB''),
              (''document'', Document \<lparr>doc_id = 4, doc_rest = ''four''\<rparr>),
              (''operationType'', Text ''insert''),
              (''clusterTime'', Text ''2024-05-01T10:00:00''),
              (''ns'', Namespace ''db.things''),
              (''_sdc_extracted_at'', Text ''2024-05-01T10:00:00''),
              (''_sdc_batched_at'', Text ''2024-05-02T08:30:00'')]]\<rparr>"


section \<open>Properties of the bookmark store\<close>

lemma REPLICATION_distinct: "REPLICATION_LOG_BASED \<noteq> REPLICATION_INCREMENTAL"
  by (simp add: REPLICATION_LOG_BASED_def REPLICATION_INCREMENTAL_def)

lemma increment_stream_state_unrecognized:
  "replication_method self \<notin> {REPLICATION_INCREMENTAL, REPLICATION_LOG_BASED} \<Longrightarrow>
   increment_stream_state self r c st =
     (Some (ValueError_unrecognized_replication_method (replication_method self)), st,
      [Critical_unrecognized_replication_method (replication_method self)])"
  by (simp add: increment_stream_state_def Let_def)

lemma increment_stream_state_no_key:
  "replication_method self \<in> {REPLICATION_INCREMENTAL, REPLICATION_LOG_BASED} \<Longrightarrow>
   replication_key self = None \<or> replication_key self = Some [] \<Longrightarrow>
   increment_stream_state self r c st =
     (Some (ValueError_no_replication_key (name self) (replication_method self)), st, [])"
  by (auto simp add: increment_stream_state_def Let_def)

text \<open>
  With a recognised method and a replication key, the call is the advance of the
  store, with the stream's own \<open>is_sorted\<close>: lines 84 to 87 never change it.
\<close>

lemma increment_stream_state_advance:
  assumes "replication_method self \<in> {REPLICATION_INCREMENTAL, REPLICATION_LOG_BASED}"
    and "replication_key self = Some k" and "k \<noteq> []"
  shows "increment_stream_state self r c st =
     (case increment_state (st c) k r (is_sorted self) (check_sorted self) of
        Inl e \<Rightarrow> (Some e, st, []) | Inr b \<Rightarrow> (None, st(c := b), []))"
  using assms
  by (auto simp add: increment_stream_state_def Let_def get_context_state_def split: sum.splits)

lemma increment_stream_state_seq_sorted:
  assumes "replication_method self \<in> {REPLICATION_INCREMENTAL, REPLICATION_LOG_BASED}"
    and "replication_key self = Some k" and "k \<noteq> []" and "is_sorted self"
  shows "map (\<lambda>r. map_of r k) rs = map (\<lambda>v. Some (Text v)) vs \<Longrightarrow> sorted_wrt (<) vs \<Longrightarrow>
     (case st c of None \<Rightarrow> True | Some b \<Rightarrow> \<forall>v\<in>set vs. b \<le> v) \<Longrightarrow>
     increment_stream_state_seq self rs c st =
       (None, if vs = [] then st else st(c := Some (last vs)))"
proof (induction rs arbitrary: vs st)
  case Nil
  then show ?case by simp
next
  case (Cons r rs)
  then obtain v vs' where vs: "vs = v # vs'" by (cases vs) auto
  with Cons.prems have r: "map_of r k = Some (Text v)"
    and rest: "map (\<lambda>r. map_of r k) rs = map (\<lambda>v. Some (Text v)) vs'"
    and srt: "sorted_wrt (<) vs'" and lt: "\<forall>w\<in>set vs'. v < w" by auto
  have ok: "\<not> (\<exists>b. st c = Some b \<and> v < b)"
    using Cons.prems(3) vs by (auto split: option.splits)
  have step: "increment_stream_state self r c st = (None, st(c := Some v), [])"
    using ok r assms
    by (auto simp add: increment_stream_state_advance increment_state_def split: option.splits)
  have "increment_stream_state_seq self rs c (st(c := Some v)) =
       (None, if vs' = [] then st(c := Some v) else (st(c := Some v))(c := Some (last vs')))"
    using Cons.IH[OF rest srt] lt by (simp add: less_imp_le)
  then show ?case using step vs by auto
qed

lemma increment_stream_state_out_of_order:
  assumes "replication_method self \<in> {REPLICATION_INCREMENTAL, REPLICATION_LOG_BASED}"
    and "replication_key self = Some k" and "k \<noteq> []" and "is_sorted self"
    and "map_of r k = Some (Text v)" and "st c = Some stored" and "v < stored"
  shows "increment_stream_state self r c st = (Some (InvalidStreamSortException v stored), st, [])"
  using assms by (simp add: increment_stream_state_advance increment_state_def)

text \<open>
  Claim C3. On a sorted stream (\<open>is_sorted\<close> true, a recognised method, a replication
  key \<open>k\<close>), a sequence of calls whose replication-key values \<open>vs\<close> are strictly
  increasing, started on a store that holds no position or one not above the first
  value, ends without an exception and the stored bookmark is the last value. A call
  whose value is less than the stored bookmark raises the out-of-order exception and
  leaves the store as it was.
\<close>

theorem sorted_stream_bookmark:
  assumes "replication_method self \<in> {REPLICATION_INCREMENTAL, REPLICATION_LOG_BASED}"
    and "replication_key self = Some k" and "k \<noteq> []" and "is_sorted self"
  shows "(vs \<noteq> [] \<and> sorted_wrt (<) vs \<and>
          map (\<lambda>r. map_of r k) rs = map (\<lambda>v. Some (Text v)) vs \<and>
          (st c = None \<or> (\<exists>b. st c = Some b \<and> b \<le> hd vs))
          \<longrightarrow> increment_stream_state_seq self rs c st = (None, st(c := Some (last vs))))
       \<and> (map_of r k = Some (Text v) \<and> st c = Some stored \<and> v < stored
          \<longrightarrow> increment_stream_state self r c st =
                (Some (InvalidStreamSortException v stored), st, []))"
proof (intro conjI impI)
  assume h: "vs \<noteq> [] \<and> sorted_wrt (<) vs \<and>
          map (\<lambda>r. map_of r k) rs = map (\<lambda>v. Some (Text v)) vs \<and>
          (st c = None \<or> (\<exists>b. st c = Some b \<and> b \<le> hd vs))"
  then have ne: "vs \<noteq> []" and srt: "sorted_wrt (<) vs"
    and mp: "map (\<lambda>r. map_of r k) rs = map (\<lambda>v. Some (Text v)) vs"
    and init: "st c = None \<or> (\<exists>b. st c = Some b \<and> b \<le> hd vs)" by blast+
  from ne obtain v0 vs' where vs: "vs = v0 # vs'" by (cases vs) blast+
  have all: "\<forall>w\<in>set vs. v0 \<le> w" using srt vs by (auto simp: less_imp_le)
  have bnd: "case st c of None \<Rightarrow> True | Some b \<Rightarrow> \<forall>v\<in>set vs. b \<le> v"
  proof (cases "st c")
    case None
    then show ?thesis by simp
  next
    case (Some b)
    with init vs have "b \<le> v0" by simp
    with all have "\<forall>v\<in>set vs. b \<le> v" by (meson order_trans)
    with Some show ?thesis by simp
  qed
  have "increment_stream_state_seq self rs c st =
       (None, if vs = [] then st else st(c := Some (last vs)))"
    by (rule increment_stream_state_seq_sorted[where st=st and c=c, OF assms mp srt bnd])
  with ne show "increment_stream_state_seq self rs c st = (None, st(c := Some (last vs)))"
    by (simp only: if_False)
next
  assume h: "map_of r k = Some (Text v) \<and> st c = Some stored \<and> v < stored"
  show "increment_stream_state self r c st =
          (Some (InvalidStreamSortException v stored), st, [])"
    by (rule increment_stream_state_out_of_order[OF assms]) (use h in blast)+
qed

theorem sorted_stream_bookmark_witness:
  "increment_stream_state_seq example_sorted_stream
      [[(''_id'', Text ''a1''), (''document'', Null)], [(''_id'', Text ''a2'')],
       [(''_id'', Text ''b0'')]]
      () (\<lambda>_. None)
     = (None, (\<lambda>_. None)(() := Some (last [''a1'', ''a2'', ''b0''])))
   \<and> increment_stream_state example_sorted_stream [(''_id'', Text ''a1'')] ()
        (\<lambda>_. Some ''a2'')
     = (Some (InvalidStreamSortException ''a1'' ''a2''), (\<lambda>_. Some ''a2''), [])"
proof -
  have m: "replication_method example_sorted_stream
             \<in> {REPLICATION_INCREMENTAL, REPLICATION_LOG_BASED}"
    by (simp add: example_sorted_stream_def REPLICATION_INCREMENTAL_def)
  have k: "replication_key example_sorted_stream = Some ''_id''"
    by (simp add: example_sorted_stream_def)
  have ne: "''_id'' \<noteq> []" by simp
  have s: "is_sorted example_sorted_stream" by (simp add: example_sorted_stream_def)
  note T = sorted_stream_bookmark [OF m k ne s]
  have a: "increment_stream_state_seq example_sorted_stream
      [[(''_id'', Text ''a1''), (''document'', Null)], [(''_id'', Text ''a2'')],
       [(''_id'', Text ''b0'')]]
      () (\<lambda>_. None)
     = (None, (\<lambda>_. None)(() := Some (last [''a1'', ''a2'', ''b0''])))"
    by (rule T [THEN conjunct1, THEN mp]) simp
  have b: "increment_stream_state example_sorted_stream [(''_id'', Text ''a1'')] ()
        (\<lambda>_. Some ''a2'')
     = (Some (InvalidStreamSortException ''a1'' ''a2''), (\<lambda>_. Some ''a2''), [])"
    by (rule T [THEN conjunct2, THEN mp]) simp
  from a b show ?thesis by (rule conjI)
qed

lemma increment_stream_state_unsorted:
  assumes "replication_method self \<in> {REPLICATION_INCREMENTAL, REPLICATION_LOG_BASED}"
    and "replication_key self = Some k" and "k \<noteq> []" and "\<not> is_sorted self"
    and "map_of r k = Some (Text v)"
  shows "increment_stream_state self r c st = (None, st(c := Some v), [])"
  using assms by (simp add: increment_stream_state_advance increment_state_def)

text \<open>
  Claim C5. The claim says that a stream configured with state partitioning keys always
  advances its bookmark with \<open>is_sorted\<close> false, so that no candidate can fail. Lines
  84 to 87 set \<^verbatim>\<open>treat_as_sorted = False\<close> only when it is false already: a sorted
  stream with partitioning keys stays sorted. On such a stream, with the stored position
  \<^verbatim>\<open>a2\<close>, the candidate \<^verbatim>\<open>a1\<close> raises the out-of-order exception and the store
  keeps \<^verbatim>\<open>a2\<close>.
\<close>

theorem partitioned_sorted_stream_out_of_order:
  "state_partitioning_keys example_partitioned_sorted_stream = Some [''tenant''] \<and>
   increment_stream_state example_partitioned_sorted_stream [(''_id'', Text ''a1'')] ()
        (\<lambda>_. Some ''a2'')
     = (Some (InvalidStreamSortException ''a1'' ''a2''), (\<lambda>_. Some ''a2''), [])"
  by (simp add: example_partitioned_sorted_stream_def increment_stream_state_def
        increment_state_def get_context_state_def REPLICATION_INCREMENTAL_def)

text \<open>
  Claim C9, as amended. A stream whose replication method is neither Incremental nor
  LogBased fails with the unrecognised-method error; a stream with a recognised method
  and no replication key (absent or empty) fails with the missing-key error. In both
  cases the state is the one the call started with.
\<close>

theorem increment_stream_state_configuration_errors:
  "(replication_method self \<notin> {REPLICATION_INCREMENTAL, REPLICATION_LOG_BASED} \<longrightarrow>
      increment_stream_state self r c st =
        (Some (ValueError_unrecognized_replication_method (replication_method self)), st,
         [Critical_unrecognized_replication_method (replication_method self)]))
   \<and> (replication_method self \<in> {REPLICATION_INCREMENTAL, REPLICATION_LOG_BASED} \<and>
      (replication_key self = None \<or> replication_key self = Some []) \<longrightarrow>
      increment_stream_state self r c st =
        (Some (ValueError_no_replication_key (name self) (replication_method self)), st, []))"
  using increment_stream_state_unrecognized [of self r c st]
    increment_stream_state_no_key [of self r c st] by blast

theorem increment_stream_state_configuration_errors_witness:
  "increment_stream_state example_full_table_stream [(''_id'', Text ''a1'')] () (\<lambda>_. Some ''a0'')
     = (Some (ValueError_unrecognized_replication_method ''FULL_TABLE''), (\<lambda>_. Some ''a0''),
        [Critical_unrecognized_replication_method ''FULL_TABLE''])
   \<and> increment_stream_state example_keyless_stream [(''_id'', Text ''a1'')] () (\<lambda>_. Some ''a0'')
     = (Some (ValueError_no_replication_key ''things'' ''LOG_BASED''), (\<lambda>_. Some ''a0''), [])"
proof -
  have a: "increment_stream_state example_full_table_stream [(''_id'', Text ''a1'')] ()
        (\<lambda>_. Some ''a0'')
     = (Some (ValueError_unrecognized_replication_method
               (replication_method example_full_table_stream)), (\<lambda>_. Some ''a0''),
        [Critical_unrecognized_replication_method (replication_method example_full_table_stream)])"
    by (rule increment_stream_state_configuration_errors [THEN conjunct1, THEN mp])
       (simp add: example_full_table_stream_def REPLICATION_INCREMENTAL_def
          REPLICATION_LOG_BASED_def)
  have b: "increment_stream_state example_keyless_stream [(''_id'', Text ''a1'')] ()
        (\<lambda>_. Some ''a0'')
     = (Some (ValueError_no_replication_key (name example_keyless_stream)
               (replication_method example_keyless_stream)), (\<lambda>_. Some ''a0''), [])"
    by (rule increment_stream_state_configuration_errors [THEN conjunct2, THEN mp])
       (simp add: example_keyless_stream_def REPLICATION_INCREMENTAL_def
          REPLICATION_LOG_BASED_def)
  from a b show ?thesis
    by (simp add: example_full_table_stream_def example_keyless_stream_def)
qed

text \<open>
  Claim C9 as stated fails where a stream has no replication key and an unrecognised
  method: the method is checked first, and the error is the unrecognised-method one.
\<close>

theorem missing_replication_key_counterexample:
  "replication_key example_full_table_stream = None \<and>
   fst (increment_stream_state example_full_table_stream [(''_id'', Text ''a1'')] ()
          (\<lambda>_. Some ''a0''))
     = Some (ValueError_unrecognized_replication_method ''FULL_TABLE'') \<and>
   fst (increment_stream_state example_full_table_stream [(''_id'', Text ''a1'')] ()
          (\<lambda>_. Some ''a0''))
     \<noteq> Some (ValueError_no_replication_key ''things'' ''FULL_TABLE'')"
  by (simp add: example_full_table_stream_def increment_stream_state_def
        REPLICATION_INCREMENTAL_def REPLICATION_LOG_BASED_def)

section \<open>Properties of the ordered snapshot reader\<close>

lemma get_records_incremental:
  assumes "replication_method self = REPLICATION_INCREMENTAL"
  shows "get_records lib self coll bookmark fuel =
     (case resolve_start_date lib (config self) bookmark of
        (Inl e, lg) \<Rightarrow> \<lparr>yielded = [], outcome = Raised e, log = lg, watched = None\<rparr>
      | (Inr sd, lg) \<Rightarrow>
          \<lparr>yielded = map (\<lambda>(k, record').
                 parsed_record_incremental lib
                   (case add_record_metadata (config self) of None \<Rightarrow> False | Some b \<Rightarrow> b)
                   k record')
               (enumerate 0 (find_gt_sort_ascending (documents coll) sd)),
           outcome = Exhausted, log = lg, watched = None\<rparr>)"
  using assms by (simp add: get_records_def Let_def)

lemma find_sorted: "sorted (map doc_id (find_gt_sort_ascending docs start))"
  by (simp add: find_gt_sort_ascending_def split: option.splits)

lemma find_mset:
  "mset (find_gt_sort_ascending docs (Some s)) = filter_mset (\<lambda>d. s < doc_id d) (mset docs)"
  by (simp add: find_gt_sort_ascending_def)

lemma find_set:
  "set (find_gt_sort_ascending docs (Some s)) = {d \<in> set docs. s < doc_id d}"
  by (simp add: find_gt_sort_ascending_def)

lemma parsed_record_incremental_fields:
  "map_of (parsed_record_incremental lib md k d) ''_id''
     = Some (Text (ObjectId_str lib (doc_id d)))"
  "map_of (parsed_record_incremental lib md k d) ''document'' = Some (Document d)"
  by (simp_all add: parsed_record_incremental_def Let_def)

lemma incremental_fields_map:
  "map (\<lambda>p. (map_of p ''_id'', map_of p ''document''))
     (map (\<lambda>(k, d). parsed_record_incremental lib md k d) (enumerate n ds))
   = map (\<lambda>d. (Some (Text (ObjectId_str lib (doc_id d))), Some (Document d))) ds"
  by (induction ds arbitrary: n) (simp_all add: parsed_record_incremental_fields)

lemma resolve_start_date_bookmark:
  "b \<noteq> [] \<Longrightarrow> ObjectId lib b = Some S \<Longrightarrow>
   resolve_start_date lib cfg (Some b) = (Inr (Some S), [])"
  by (simp add: resolve_start_date_def)

lemma resolve_start_date_unparseable:
  "b \<noteq> [] \<Longrightarrow> ObjectId lib b = None \<Longrightarrow>
   resolve_start_date lib cfg (Some b) = (Inr None, [Warning_cannot_parse_ObjectId b])"
  by (simp add: resolve_start_date_def)

lemma resolve_start_date_absent:
  "bookmark = None \<or> bookmark = Some [] \<Longrightarrow>
   strptime_to_utc lib (case start_date cfg of None \<Rightarrow> ''1970-01-01'' | Some s \<Rightarrow> s) = Some dt \<Longrightarrow>
   resolve_start_date lib cfg bookmark =
     (Inr (Some (ObjectId_from_datetime lib dt)),
      [Info_using_start_date_str (case start_date cfg of None \<Rightarrow> ''1970-01-01'' | Some s \<Rightarrow> s)])"
  by (auto simp add: resolve_start_date_def Let_def)

text \<open>
  Claim C1. In Incremental mode, let \<open>S\<close> be the starting position: the parsed
  bookmark when there is a (non-empty) bookmark that parses, and the identifier derived
  from the configured start date (default 1970-01-01) when there is none. Then
  \<^verbatim>\<open>get_records\<close> ends normally, and the documents it emits are exactly the documents
  of the collection whose identifier is greater than \<open>S\<close> (as a multiset), in ascending
  order of identifier; the record of a document holds the identifier rendered as text
  under \<^verbatim>\<open>_id\<close> and the whole document under \<^verbatim>\<open>document\<close>.
\<close>

theorem get_records_incremental_ascending:
  assumes "replication_method self = REPLICATION_INCREMENTAL"
    and "(\<exists>b. bookmark = Some b \<and> b \<noteq> [] \<and> ObjectId lib b = Some S) \<or>
         ((bookmark = None \<or> bookmark = Some []) \<and>
          (\<exists>dt. strptime_to_utc lib
                  (case start_date (config self) of None \<Rightarrow> ''1970-01-01'' | Some s \<Rightarrow> s)
                = Some dt \<and> S = ObjectId_from_datetime lib dt))"
  shows "\<exists>ds. sorted (map doc_id ds) \<and>
           mset ds = filter_mset (\<lambda>d. S < doc_id d) (mset (documents coll)) \<and>
           map (\<lambda>p. (map_of p ''_id'', map_of p ''document''))
               (yielded (get_records lib self coll bookmark fuel))
             = map (\<lambda>d. (Some (Text (ObjectId_str lib (doc_id d))), Some (Document d))) ds \<and>
           outcome (get_records lib self coll bookmark fuel) = Exhausted"
proof -
  consider (bm) b where "bookmark = Some b" "b \<noteq> []" "ObjectId lib b = Some S"
    | (sd) dt where "bookmark = None \<or> bookmark = Some []"
        "strptime_to_utc lib
           (case start_date (config self) of None \<Rightarrow> ''1970-01-01'' | Some s \<Rightarrow> s) = Some dt"
        "S = ObjectId_from_datetime lib dt"
    using assms(2) by blast
  then have "\<exists>lg. resolve_start_date lib (config self) bookmark = (Inr (Some S), lg)"
  proof cases
    case bm
    then show ?thesis by (simp add: resolve_start_date_bookmark)
  next
    case sd
    show ?thesis by (simp add: resolve_start_date_absent [OF sd(1) sd(2)] sd(3))
  qed
  then obtain lg where r: "resolve_start_date lib (config self) bookmark = (Inr (Some S), lg)"
    by blast
  let ?ds = "find_gt_sort_ascending (documents coll) (Some S)"
  have "sorted (map doc_id ?ds)" by (rule find_sorted)
  moreover have "mset ?ds = filter_mset (\<lambda>d. S < doc_id d) (mset (documents coll))"
    by (rule find_mset)
  moreover have "map (\<lambda>p. (map_of p ''_id'', map_of p ''document''))
               (yielded (get_records lib self coll bookmark fuel))
             = map (\<lambda>d. (Some (Text (ObjectId_str lib (doc_id d))), Some (Document d))) ?ds"
  proof -
    have y: "yielded (get_records lib self coll bookmark fuel) =
        map (\<lambda>(k, d). parsed_record_incremental lib
               (case add_record_metadata (config self) of None \<Rightarrow> False | Some b \<Rightarrow> b) k d)
          (enumerate 0 ?ds)"
      by (simp add: get_records_incremental[OF assms(1)] r)
    show ?thesis unfolding y by (rule incremental_fields_map)
  qed
  moreover have "outcome (get_records lib self coll bookmark fuel) = Exhausted"
    by (simp add: get_records_incremental[OF assms(1)] r)
  ultimately show ?thesis by blast
qed

theorem get_records_incremental_ascending_witness:
  "(\<exists>ds. sorted (map doc_id ds) \<and>
      mset ds = filter_mset (\<lambda>d. 0 < doc_id d) (mset (documents example_collection)) \<and>
      map (\<lambda>p. (map_of p ''_id'', map_of p ''document''))
          (yielded (get_records example_library example_incremental_stream
                      example_collection None 0))
        = map (\<lambda>d. (Some (Text (ObjectId_str example_library (doc_id d))), Some (Document d)))
            ds \<and>
      outcome (get_records example_library example_incremental_stream example_collection
                 None 0) = Exhausted)
   \<and> (\<exists>ds. sorted (map doc_id ds) \<and>
      mset ds = filter_mset (\<lambda>d. 2 < doc_id d) (mset (documents example_collection)) \<and>
      map (\<lambda>p. (map_of p ''_id'', map_of p ''document''))
          (yielded (get_records example_library example_incremental_stream
                      example_collection (Some ''65a2'') 0))
        = map (\<lambda>d. (Some (Text (ObjectId_str example_library (doc_id d))), Some (Document d)))
            ds \<and>
      outcome (get_records example_library example_incremental_stream example_collection
                 (Some ''65a2'') 0) = Exhausted)"
proof (rule conjI)
  have m: "replication_method example_incremental_stream = REPLICATION_INCREMENTAL"
    by (simp add: example_incremental_stream_def REPLICATION_INCREMENTAL_def)
  show "\<exists>ds. sorted (map doc_id ds) \<and>
      mset ds = filter_mset (\<lambda>d. 0 < doc_id d) (mset (documents example_collection)) \<and>
      map (\<lambda>p. (map_of p ''_id'', map_of p ''document''))
          (yielded (get_records example_library example_incremental_stream
                      example_collection None 0))
        = map (\<lambda>d. (Some (Text (ObjectId_str example_library (doc_id d))), Some (Document d)))
            ds \<and>
      outcome (get_records example_library example_incremental_stream example_collection
                 None 0) = Exhausted"
    by (rule get_records_incremental_ascending [OF m])
       (simp add: example_library_def example_incremental_stream_def)
  show "\<exists>ds. sorted (map doc_id ds) \<and>
      mset ds = filter_mset (\<lambda>d. 2 < doc_id d) (mset (documents example_collection)) \<and>
      map (\<lambda>p. (map_of p ''_id'', map_of p ''document''))
          (yielded (get_records example_library example_incremental_stream
                      example_collection (Some ''65a2'') 0))
        = map (\<lambda>d. (Some (Text (ObjectId_str example_library (doc_id d))), Some (Document d)))
            ds \<and>
      outcome (get_records example_library example_incremental_stream example_collection
                 (Some ''65a2'') 0) = Exhausted"
    by (rule get_records_incremental_ascending [OF m])
       (simp add: example_library_def example_incremental_stream_def)
qed

lemma example_scenario_A:
  "get_records example_library example_incremental_stream example_collection None 0 =
     \<lparr>yielded =
        [[(''_id'', Text ''65a1''),
          (''document'', Document \<lparr>doc_id = 1, doc_rest = ''one''\<rparr>)],
         [(''_id'', Text ''65a2''),
          (''document'', Document \<lparr>doc_id = 2, doc_rest = ''two''\<rparr>)],
         [(''_id'', Text ''65a3''),
          (''document'', Document \<lparr>doc_id = 3, doc_rest = ''three''\<rparr>)]],
      outcome = Exhausted, log = [Info_using_start_date_str ''1970-01-01''], watched = None\<rparr>"
  by (simp add: get_records_def example_library_def example_incremental_stream_def
        example_collection_def REPLICATION_INCREMENTAL_def resolve_start_date_def
        find_gt_sort_ascending_def parsed_record_incremental_def Let_def)

lemma get_records_unparseable_bookmark:
  assumes "replication_method self = REPLICATION_INCREMENTAL"
    and "b \<noteq> []" and "ObjectId lib b = None"
  shows "get_records lib self coll (Some b) fuel =
     \<lparr>yielded = [], outcome = Exhausted, log = [Warning_cannot_parse_ObjectId b],
      watched = None\<rparr>"
  by (simp add: get_records_incremental [OF assms(1)]
        resolve_start_date_unparseable [OF assms(2,3)] find_gt_sort_ascending_def)

text \<open>
  Claim C4. The claim says that an unparseable bookmark makes \<^verbatim>\<open>get_records\<close> fall
  back to the configured start date. The source logs the warning and raises nothing, but
  leaves \<^verbatim>\<open>start_date\<close> at \<^verbatim>\<open>None\<close> and queries with it: the start date of the
  configuration is not read on this path. With the start date 1970-01-01 configured and
  three documents in the collection, the bookmark \<^verbatim>\<open>not-an-id\<close> yields no record,
  where the absent bookmark yields all three.
\<close>

theorem unparseable_bookmark_not_start_date:
  "get_records example_library example_incremental_stream example_collection
      (Some ''not-an-id'') 0
     = \<lparr>yielded = [], outcome = Exhausted,
        log = [Warning_cannot_parse_ObjectId ''not-an-id''], watched = None\<rparr>
   \<and> start_date (config example_incremental_stream) = Some ''1970-01-01''
   \<and> length (yielded (get_records example_library example_incremental_stream
                example_collection None 0)) = 3"
  by (simp add: get_records_def example_library_def example_incremental_stream_def
        example_collection_def REPLICATION_INCREMENTAL_def resolve_start_date_def
        find_gt_sort_ascending_def Let_def)

lemma increment_stream_state_seq_success:
  assumes "replication_method self \<in> {REPLICATION_INCREMENTAL, REPLICATION_LOG_BASED}"
    and "replication_key self = Some k" and "k \<noteq> []"
  shows "map (\<lambda>r. map_of r k) rs = map (\<lambda>v. Some (Text v)) vs \<Longrightarrow>
     increment_stream_state_seq self rs c st = (None, st') \<Longrightarrow>
     st' = (if vs = [] then st else st(c := Some (last vs)))"
proof (induction rs arbitrary: vs st)
  case Nil
  then show ?case by simp
next
  case (Cons r rs)
  then obtain v vs' where vs: "vs = v # vs'" by (cases vs) auto
  with Cons.prems have r: "map_of r k = Some (Text v)"
    and rest: "map (\<lambda>r. map_of r k) rs = map (\<lambda>v. Some (Text v)) vs'" by auto
  have "increment_state (st c) k r (is_sorted self) (check_sorted self) = Inr (Some v) \<or>
        (\<exists>e. increment_state (st c) k r (is_sorted self) (check_sorted self) = Inl e)"
    using r by (simp add: increment_state_def split: option.splits)
  then show ?case
  proof
    assume "increment_state (st c) k r (is_sorted self) (check_sorted self) = Inr (Some v)"
    then have step: "increment_stream_state self r c st = (None, st(c := Some v), [])"
      by (simp add: increment_stream_state_advance [OF assms])
    with Cons.prems(2) have "increment_stream_state_seq self rs c (st(c := Some v)) = (None, st')"
      by simp
    from Cons.IH [OF rest this] show ?thesis using vs by auto
  next
    assume "\<exists>e. increment_state (st c) k r (is_sorted self) (check_sorted self) = Inl e"
    then obtain e where "increment_stream_state self r c st = (Some e, st, [])"
      by (auto simp add: increment_stream_state_advance [OF assms])
    with Cons.prems(2) show ?thesis by simp
  qed
qed

lemma sorted_last_max:
  "sorted (map f xs) \<Longrightarrow> x \<in> set xs \<Longrightarrow> f x \<le> f (last xs)"
  by (induction xs) auto

lemma find_after_last:
  assumes "find_gt_sort_ascending docs start \<noteq> []"
  shows "find_gt_sort_ascending docs
           (Some (doc_id (last (find_gt_sort_ascending docs start)))) = []"
proof -
  from assms obtain s where s: "start = Some s"
    by (cases start) (simp_all add: find_gt_sort_ascending_def)
  let ?ds = "find_gt_sort_ascending docs (Some s)"
  let ?m = "doc_id (last ?ds)"
  have ne: "?ds \<noteq> []" using assms s by simp
  then have "last ?ds \<in> set ?ds" by (rule last_in_set)
  then have sm: "s < ?m" by (simp add: find_set)
  have "{d \<in> set docs. ?m < doc_id d} = {}"
  proof (rule ccontr)
    assume "{d \<in> set docs. ?m < doc_id d} \<noteq> {}"
    then obtain d where d: "d \<in> set docs" "?m < doc_id d" by blast
    with sm have "s < doc_id d" by (meson less_trans)
    with d(1) have "d \<in> set ?ds" by (simp add: find_set)
    then have "doc_id d \<le> ?m"
      using find_sorted [of docs "Some s"] by (rule sorted_last_max [rotated])
    with d(2) show False by simp
  qed
  then have "set (find_gt_sort_ascending docs (Some ?m)) = {}" by (simp only: find_set)
  then show ?thesis using s by simp
qed

lemma incremental_ids_map:
  "map (\<lambda>r. map_of r ''_id'')
     (map (\<lambda>(k, d). parsed_record_incremental lib md k d) (enumerate n ds))
   = map (\<lambda>v. Some (Text v)) (map (\<lambda>d. ObjectId_str lib (doc_id d)) ds)"
  by (induction ds arbitrary: n) (simp_all add: parsed_record_incremental_fields)

text \<open>
  Claim C8. In Incremental mode, on a fixed collection whose identifiers survive the
  round trip through their text (and whose text is not empty), run \<^verbatim>\<open>get_records\<close>
  from the stored bookmark and advance the store by every record yielded, without an
  exception. Running \<^verbatim>\<open>get_records\<close> again from the bookmark now stored yields no
  record.
\<close>

theorem incremental_rerun_yields_nothing:
  assumes "replication_method self = REPLICATION_INCREMENTAL"
    and "replication_key self = Some ''_id''"
    and "\<forall>d\<in>set (documents coll).
           ObjectId lib (ObjectId_str lib (doc_id d)) = Some (doc_id d) \<and>
           ObjectId_str lib (doc_id d) \<noteq> []"
    and "increment_stream_state_seq self
           (yielded (get_records lib self coll (get_starting_replication_key_value st c) fuel)) c st
         = (None, st')"
  shows "yielded (get_records lib self coll (get_starting_replication_key_value st' c) fuel') = []"
proof -
  let ?md = "case add_record_metadata (config self) of None \<Rightarrow> False | Some b \<Rightarrow> b"
  have sup: "replication_method self \<in> {REPLICATION_INCREMENTAL, REPLICATION_LOG_BASED}"
    using assms(1) by simp
  have kne: "''_id'' \<noteq> []" by simp
  obtain res lg where res: "resolve_start_date lib (config self) (st c) = (res, lg)"
    by (cases "resolve_start_date lib (config self) (st c)")
  show ?thesis
  proof (cases res)
    case (Inl e)
    with res have
      "yielded (get_records lib self coll (get_starting_replication_key_value st c) fuel) = []"
      by (simp add: get_records_incremental [OF assms(1)]
            get_starting_replication_key_value_def)
    with assms(4) have "st' = st" by simp
    with res Inl show ?thesis
      by (simp add: get_records_incremental [OF assms(1)]
            get_starting_replication_key_value_def)
  next
    case (Inr sd)
    let ?ds = "find_gt_sort_ascending (documents coll) sd"
    have y: "yielded (get_records lib self coll (get_starting_replication_key_value st c) fuel) =
        map (\<lambda>(k, d). parsed_record_incremental lib ?md k d) (enumerate 0 ?ds)"
      using res Inr by (simp add: get_records_incremental [OF assms(1)]
            get_starting_replication_key_value_def)
    note ids = incremental_ids_map [of lib ?md _ ?ds]
    have st': "st' = (if map (\<lambda>d. ObjectId_str lib (doc_id d)) ?ds = [] then st
                      else st(c := Some (last (map (\<lambda>d. ObjectId_str lib (doc_id d)) ?ds))))"
      by (rule increment_stream_state_seq_success [OF sup assms(2) kne ids [of 0]])
         (use assms(4) y in simp)
    show ?thesis
    proof (cases "?ds = []")
      case True
      with st' have "st' = st" by simp
      with res Inr True show ?thesis
        by (simp add: get_records_incremental [OF assms(1)]
            get_starting_replication_key_value_def)
    next
      case False
      let ?m = "doc_id (last ?ds)"
      from False st' have b: "st' c = Some (ObjectId_str lib ?m)"
        by (simp add: last_map)
      have "last ?ds \<in> set ?ds" using False by (rule last_in_set)
      moreover have "set ?ds \<subseteq> set (documents coll)"
        by (cases sd) (auto simp add: find_gt_sort_ascending_def)
      ultimately have "last ?ds \<in> set (documents coll)" by blast
      with assms(3) have rt: "ObjectId lib (ObjectId_str lib ?m) = Some ?m"
        and ne: "ObjectId_str lib ?m \<noteq> []" by blast+
      have "resolve_start_date lib (config self) (st' c) = (Inr (Some ?m), [])"
        unfolding b by (rule resolve_start_date_bookmark [OF ne rt])
      moreover have "find_gt_sort_ascending (documents coll) (Some ?m) = []"
        by (rule find_after_last [OF False])
      ultimately show ?thesis
        by (simp add: get_records_incremental [OF assms(1)]
            get_starting_replication_key_value_def)
    qed
  qed
qed

theorem incremental_rerun_yields_nothing_witness:
  "increment_stream_state_seq example_incremental_stream
     (yielded (get_records example_library example_incremental_stream example_collection
                 (get_starting_replication_key_value (\<lambda>_. None) ()) 0)) () (\<lambda>_. None)
     = (None, (\<lambda>_. None)(() := Some ''65a3''))
   \<and> yielded (get_records example_library example_incremental_stream example_collection
                (get_starting_replication_key_value ((\<lambda>_. None)(() := Some ''65a3'')) ()) 0) = []"
proof -
  have m: "replication_method example_incremental_stream = REPLICATION_INCREMENTAL"
    by (simp add: example_incremental_stream_def REPLICATION_INCREMENTAL_def)
  have k: "replication_key example_incremental_stream = Some ''_id''"
    by (simp add: example_incremental_stream_def)
  have rt: "\<forall>d\<in>set (documents example_collection).
           ObjectId example_library (ObjectId_str example_library (doc_id d)) = Some (doc_id d) \<and>
           ObjectId_str example_library (doc_id d) \<noteq> []"
    by (simp add: example_collection_def example_library_def)
  have run: "increment_stream_state_seq example_incremental_stream
     (yielded (get_records example_library example_incremental_stream example_collection
                 (get_starting_replication_key_value (\<lambda>_. None) ()) 0)) () (\<lambda>_. None)
     = (None, (\<lambda>_. None)(() := Some ''65a3''))"
    unfolding get_starting_replication_key_value_def example_scenario_A
    by (simp add: increment_stream_state_def increment_state_def get_context_state_def
          example_incremental_stream_def REPLICATION_INCREMENTAL_def REPLICATION_LOG_BASED_def)
  from run incremental_rerun_yields_nothing [OF m k rt run, of 0] show ?thesis
    by (rule conjI)
qed

section \<open>Properties of the tailing log reader\<close>

lemma get_records_log_based:
  assumes "replication_method self = REPLICATION_LOG_BASED"
    and "operation_types (config self) = Some ops"
    and "watch coll \<lparr>full_document = ''updateLookup'', resume_after = bookmark\<rparr> = Inr cs"
  shows "get_records lib self coll bookmark fuel =
     (case drain fuel lib
             (case add_record_metadata (config self) of None \<Rightarrow> False | Some b \<Rightarrow> b)
             (set ops) cs
             \<lparr>polls = 0, has_seen_a_record = False, keep_open = True, out = []\<rparr> of
        (s, oc) \<Rightarrow> \<lparr>yielded = out s, outcome = oc, log = [],
                     watched = Some \<lparr>full_document = ''updateLookup'',
                                     resume_after = bookmark\<rparr>\<rparr>)"
  using assms by (simp add: get_records_def Let_def REPLICATION_distinct)

lemma loop_body_none:
  "try_next cs (polls s) = None \<Longrightarrow>
   loop_body lib md allow cs s =
     Inr (if has_seen_a_record s then s\<lparr>polls := Suc (polls s), keep_open := False\<rparr>
          else s\<lparr>polls := Suc (polls s)\<rparr>)"
  by (simp add: loop_body_def Let_def)

lemma loop_body_excluded:
  "try_next cs (polls s) = Some ev \<Longrightarrow> operationType ev = Some t \<Longrightarrow> t \<notin> allow \<Longrightarrow>
   loop_body lib md allow cs s = Inr (s\<lparr>polls := Suc (polls s)\<rparr>)"
  by (simp add: loop_body_def Let_def)

lemma drain_idle:
  "keep_open s \<Longrightarrow> \<not> has_seen_a_record s \<Longrightarrow>
   \<forall>k\<ge>polls s. alive cs k \<and>
      (try_next cs k = None \<or>
       (\<exists>ev t. try_next cs k = Some ev \<and> operationType ev = Some t \<and> t \<notin> allow)) \<Longrightarrow>
   drain fuel lib md allow cs s = (s\<lparr>polls := polls s + fuel\<rparr>, Draining)"
proof (induction fuel arbitrary: s)
  case 0
  then show ?case by simp
next
  case (Suc fuel)
  let ?s = "s\<lparr>polls := Suc (polls s)\<rparr>"
  from Suc.prems(3) have here: "alive cs (polls s)"
    and poll: "try_next cs (polls s) = None \<or>
       (\<exists>ev t. try_next cs (polls s) = Some ev \<and> operationType ev = Some t \<and> t \<notin> allow)"
    by auto
  have body: "loop_body lib md allow cs s = Inr ?s"
    using poll Suc.prems(2) by (auto simp add: loop_body_none loop_body_excluded)
  have "drain fuel lib md allow cs ?s = (?s\<lparr>polls := polls ?s + fuel\<rparr>, Draining)"
    by (rule Suc.IH) (use Suc.prems in auto)
  then show ?case using here Suc.prems(1) body by simp
qed

lemma drain_closes:
  assumes "keep_open s" and "has_seen_a_record s" and "alive cs (polls s)"
    and "try_next cs (polls s) = None"
  shows "drain (Suc (Suc fuel)) lib md allow cs s =
           (s\<lparr>polls := Suc (polls s), keep_open := False\<rparr>, Exhausted)"
  using assms by (simp add: loop_body_none)

lemma loop_body_flag:
  "loop_body lib md allow cs s = Inr s' \<Longrightarrow> has_seen_a_record s = (out s \<noteq> []) \<Longrightarrow>
   has_seen_a_record s' = (out s' \<noteq> [])"
  by (auto simp add: loop_body_def Let_def split: option.splits if_splits sum.splits)

lemma loop_body_flag_raised:
  "loop_body lib md allow cs s = Inl (e, s') \<Longrightarrow> has_seen_a_record s = (out s \<noteq> []) \<Longrightarrow>
   has_seen_a_record s' = (out s' \<noteq> [])"
  by (auto simp add: loop_body_def Let_def split: option.splits if_splits sum.splits)

lemma drain_flag:
  "has_seen_a_record s = (out s \<noteq> []) \<Longrightarrow>
   has_seen_a_record (fst (drain fuel lib md allow cs s))
     = (out (fst (drain fuel lib md allow cs s)) \<noteq> [])"
proof (induction fuel arbitrary: s)
  case 0
  then show ?case by simp
next
  case (Suc fuel)
  show ?case
  proof (cases "alive cs (polls s) \<and> keep_open s")
    case False
    then show ?thesis using Suc.prems by auto
  next
    case True
    show ?thesis
    proof (cases "loop_body lib md allow cs s")
      case (Inl p)
      then obtain e s' where "loop_body lib md allow cs s = Inl (e, s')" by (cases p) simp
      then show ?thesis using True loop_body_flag_raised [OF _ Suc.prems] by simp
    next
      case (Inr s')
      then show ?thesis using True Suc.IH [OF loop_body_flag [OF Inr Suc.prems]] by simp
    qed
  qed
qed

lemma drain_split:
  "drain (n + m) lib md allow cs s =
     (case drain n lib md allow cs s of
        (s', Draining) \<Rightarrow> drain m lib md allow cs s'
      | (s', oc) \<Rightarrow> (s', oc))"
proof (induction n arbitrary: s)
  case 0
  then show ?case by simp
next
  case (Suc n)
  then show ?case
    by (auto split: sum.splits prod.splits outcome.splits)
qed

lemma example_two_polls:
  "drain (Suc (Suc 0)) example_library
      (case add_record_metadata (config example_log_based_stream) of
         None \<Rightarrow> False | Some b \<Rightarrow> b)
      (set [''insert'', ''update'']) example_change_stream
      \<lparr>polls = 0, has_seen_a_record = False, keep_open = True, out = []\<rparr>
   = (example_seen_state, Draining)"
  by (simp add: example_library_def example_log_based_stream_def example_change_stream_def
        example_delete_event_def example_insert_event_def example_seen_state_def
        loop_body_def parsed_record_log_based_def Let_def)


text \<open>
  Claim C2. In LogBased mode, while the cursor is alive and no record has been seen, a
  poll that returns \<^verbatim>\<open>None\<close> leaves the loop running with the flags unchanged; if
  the cursor stays alive and every poll returns \<^verbatim>\<open>None\<close>, the loop is still draining
  after any number of iterations, and so is \<^verbatim>\<open>get_records\<close>, which has yielded
  nothing. Once a record has been seen, the first poll that returns \<^verbatim>\<open>None\<close> sets
  \<^verbatim>\<open>keep_open\<close> to false and the loop ends at the next test of its condition: an
  invocation of \<^verbatim>\<open>get_records\<close> that has yielded a record after \<open>n\<close> iterations and
  then polls \<^verbatim>\<open>None\<close> on a live cursor ends normally two iterations later, with the
  records yielded so far. (The flag \<^verbatim>\<open>has_seen_a_record\<close> is true exactly when a
  record has been yielded: lemma \<open>drain_flag\<close>.)
\<close>

theorem log_based_none_polls:
  "(keep_open s \<and> \<not> has_seen_a_record s \<and> alive cs (polls s) \<and>
      try_next cs (polls s) = None \<longrightarrow>
      drain (Suc fuel) lib md allow cs s
        = drain fuel lib md allow cs (s\<lparr>polls := Suc (polls s)\<rparr>))
   \<and> (keep_open s \<and> \<not> has_seen_a_record s \<and>
      (\<forall>k\<ge>polls s. alive cs k \<and> try_next cs k = None) \<longrightarrow>
      (\<forall>n. drain n lib md allow cs s = (s\<lparr>polls := polls s + n\<rparr>, Draining)))
   \<and> (keep_open s \<and> has_seen_a_record s \<and> alive cs (polls s) \<and>
      try_next cs (polls s) = None \<longrightarrow>
      drain (Suc (Suc fuel)) lib md allow cs s
        = (s\<lparr>polls := Suc (polls s), keep_open := False\<rparr>, Exhausted))
   \<and> (replication_method self = REPLICATION_LOG_BASED \<and>
      operation_types (config self) = Some ops \<and>
      watch coll \<lparr>full_document = ''updateLookup'', resume_after = bookmark\<rparr> = Inr cs' \<and>
      (\<forall>k. alive cs' k \<and> try_next cs' k = None) \<longrightarrow>
      (\<forall>n. outcome (get_records lib' self coll bookmark n) = Draining \<and>
           yielded (get_records lib' self coll bookmark n) = []))
   \<and> (replication_method self = REPLICATION_LOG_BASED \<and>
      operation_types (config self) = Some ops \<and>
      watch coll \<lparr>full_document = ''updateLookup'', resume_after = bookmark\<rparr> = Inr cs' \<and>
      drain n lib'
        (case add_record_metadata (config self) of None \<Rightarrow> False | Some b \<Rightarrow> b)
        (set ops) cs'
        \<lparr>polls = 0, has_seen_a_record = False, keep_open = True, out = []\<rparr> = (s1, Draining) \<and>
      out s1 \<noteq> [] \<and> keep_open s1 \<and> alive cs' (polls s1) \<and> try_next cs' (polls s1) = None \<longrightarrow>
      (\<forall>m. outcome (get_records lib' self coll bookmark (n + Suc (Suc m))) = Exhausted \<and>
           yielded (get_records lib' self coll bookmark (n + Suc (Suc m))) = out s1))"
proof (intro conjI impI allI)
  assume "keep_open s \<and> \<not> has_seen_a_record s \<and> alive cs (polls s) \<and> try_next cs (polls s) = None"
  then show "drain (Suc fuel) lib md allow cs s
        = drain fuel lib md allow cs (s\<lparr>polls := Suc (polls s)\<rparr>)"
    by (simp add: loop_body_none)
next
  fix n
  assume "keep_open s \<and> \<not> has_seen_a_record s \<and>
      (\<forall>k\<ge>polls s. alive cs k \<and> try_next cs k = None)"
  then show "drain n lib md allow cs s = (s\<lparr>polls := polls s + n\<rparr>, Draining)"
    by (intro drain_idle) auto
next
  assume "keep_open s \<and> has_seen_a_record s \<and> alive cs (polls s) \<and>
      try_next cs (polls s) = None"
  then show "drain (Suc (Suc fuel)) lib md allow cs s
        = (s\<lparr>polls := Suc (polls s), keep_open := False\<rparr>, Exhausted)"
    by (intro drain_closes) auto
next
  fix n
  assume h: "replication_method self = REPLICATION_LOG_BASED \<and>
      operation_types (config self) = Some ops \<and>
      watch coll \<lparr>full_document = ''updateLookup'', resume_after = bookmark\<rparr> = Inr cs' \<and>
      (\<forall>k. alive cs' k \<and> try_next cs' k = None)"
  let ?md = "case add_record_metadata (config self) of None \<Rightarrow> False | Some b \<Rightarrow> b"
  have d: "drain n lib' ?md (set ops) cs'
             \<lparr>polls = 0, has_seen_a_record = False, keep_open = True, out = []\<rparr>
             = (\<lparr>polls = n, has_seen_a_record = False, keep_open = True, out = []\<rparr>, Draining)"
    using drain_idle [of "\<lparr>polls = 0, has_seen_a_record = False, keep_open = True, out = []\<rparr>"
            cs' "set ops" n lib' ?md] h
    by simp
  from h have g: "get_records lib' self coll bookmark n =
     (case drain n lib' ?md (set ops) cs'
             \<lparr>polls = 0, has_seen_a_record = False, keep_open = True, out = []\<rparr> of
        (s, oc) \<Rightarrow> \<lparr>yielded = out s, outcome = oc, log = [],
                     watched = Some \<lparr>full_document = ''updateLookup'',
                                     resume_after = bookmark\<rparr>\<rparr>)"
    by (intro get_records_log_based) auto
  show "outcome (get_records lib' self coll bookmark n) = Draining" by (simp add: g d)
  show "yielded (get_records lib' self coll bookmark n) = []" by (simp add: g d)
next
  fix m
  let ?md = "case add_record_metadata (config self) of None \<Rightarrow> False | Some b \<Rightarrow> b"
  assume h: "replication_method self = REPLICATION_LOG_BASED \<and>
      operation_types (config self) = Some ops \<and>
      watch coll \<lparr>full_document = ''updateLookup'', resume_after = bookmark\<rparr> = Inr cs' \<and>
      drain n lib' ?md (set ops) cs'
        \<lparr>polls = 0, has_seen_a_record = False, keep_open = True, out = []\<rparr> = (s1, Draining) \<and>
      out s1 \<noteq> [] \<and> keep_open s1 \<and> alive cs' (polls s1) \<and> try_next cs' (polls s1) = None"
  then have d: "drain n lib' ?md (set ops) cs'
        \<lparr>polls = 0, has_seen_a_record = False, keep_open = True, out = []\<rparr> = (s1, Draining)"
    by blast
  have "has_seen_a_record (fst (drain n lib' ?md (set ops) cs'
            \<lparr>polls = 0, has_seen_a_record = False, keep_open = True, out = []\<rparr>))
        = (out (fst (drain n lib' ?md (set ops) cs'
            \<lparr>polls = 0, has_seen_a_record = False, keep_open = True, out = []\<rparr>)) \<noteq> [])"
    by (rule drain_flag) simp
  with d h have seen: "has_seen_a_record s1" by simp
  have c: "drain (Suc (Suc m)) lib' ?md (set ops) cs' s1
             = (s1\<lparr>polls := Suc (polls s1), keep_open := False\<rparr>, Exhausted)"
    by (rule drain_closes) (use h seen in auto)
  have e: "drain (n + Suc (Suc m)) lib' ?md (set ops) cs'
             \<lparr>polls = 0, has_seen_a_record = False, keep_open = True, out = []\<rparr>
           = (s1\<lparr>polls := Suc (polls s1), keep_open := False\<rparr>, Exhausted)"
    by (simp only: drain_split [of n "Suc (Suc m)"] d c prod.case outcome.case)
  from h have g: "get_records lib' self coll bookmark (n + Suc (Suc m)) =
     (case drain (n + Suc (Suc m)) lib' ?md (set ops) cs'
             \<lparr>polls = 0, has_seen_a_record = False, keep_open = True, out = []\<rparr> of
        (s, oc) \<Rightarrow> \<lparr>yielded = out s, outcome = oc, log = [],
                     watched = Some \<lparr>full_document = ''updateLookup'',
                                     resume_after = bookmark\<rparr>\<rparr>)"
    by (intro get_records_log_based) auto
  show "outcome (get_records lib' self coll bookmark (n + Suc (Suc m))) = Exhausted"
    unfolding g e by simp
  show "yielded (get_records lib' self coll bookmark (n + Suc (Suc m))) = out s1"
    unfolding g e by simp
qed

theorem log_based_none_polls_witness:
  "drain (Suc 4) example_library True {''insert''} example_idle_change_stream example_initial_state
     = drain 4 example_library True {''insert''} example_idle_change_stream
         (example_initial_state\<lparr>polls := Suc (polls example_initial_state)\<rparr>)
   \<and> (\<forall>n. drain n example_library True {''insert''} example_idle_change_stream
            example_initial_state
          = (example_initial_state\<lparr>polls := polls example_initial_state + n\<rparr>, Draining))
   \<and> drain (Suc (Suc 0)) example_library True {''insert''} example_change_stream
        example_seen_state
     = (example_seen_state\<lparr>polls := Suc (polls example_seen_state), keep_open := False\<rparr>,
        Exhausted)
   \<and> (\<forall>n. outcome (get_records example_library example_log_based_stream
                     example_idle_collection None n) = Draining \<and>
          yielded (get_records example_library example_log_based_stream
                     example_idle_collection None n) = [])
   \<and> (\<forall>m. outcome (get_records example_library example_log_based_stream
                     example_watched_collection None (Suc (Suc 0) + Suc (Suc m))) = Exhausted \<and>
          yielded (get_records example_library example_log_based_stream
                     example_watched_collection None (Suc (Suc 0) + Suc (Suc m)))
            = out example_seen_state)"
proof (intro conjI)
  show "drain (Suc 4) example_library True {''insert''} example_idle_change_stream
      example_initial_state
     = drain 4 example_library True {''insert''} example_idle_change_stream
         (example_initial_state\<lparr>polls := Suc (polls example_initial_state)\<rparr>)"
    by (rule log_based_none_polls [THEN conjunct1, THEN mp])
       (simp add: example_idle_change_stream_def example_initial_state_def)
  show "\<forall>n. drain n example_library True {''insert''} example_idle_change_stream
            example_initial_state
          = (example_initial_state\<lparr>polls := polls example_initial_state + n\<rparr>, Draining)"
    by (rule log_based_none_polls [THEN conjunct2, THEN conjunct1, THEN mp])
       (simp add: example_idle_change_stream_def example_initial_state_def)
  show "drain (Suc (Suc 0)) example_library True {''insert''} example_change_stream
        example_seen_state
     = (example_seen_state\<lparr>polls := Suc (polls example_seen_state), keep_open := False\<rparr>,
        Exhausted)"
    by (rule log_based_none_polls [THEN conjunct2, THEN conjunct2, THEN conjunct1, THEN mp])
       (simp add: example_change_stream_def example_seen_state_def)
  show "\<forall>n. outcome (get_records example_library example_log_based_stream
                     example_idle_collection None n) = Draining \<and>
          yielded (get_records example_library example_log_based_stream
                     example_idle_collection None n) = []"
    by (rule log_based_none_polls [where ops = "[''insert'', ''update'']"
          and cs' = example_idle_change_stream,
          THEN conjunct2, THEN conjunct2, THEN conjunct2, THEN conjunct1, THEN mp])
       (simp add: example_log_based_stream_def example_idle_collection_def
          example_idle_change_stream_def REPLICATION_LOG_BASED_def)
  have h: "replication_method example_log_based_stream = REPLICATION_LOG_BASED \<and>
      operation_types (config example_log_based_stream) = Some [''insert'', ''update''] \<and>
      watch example_watched_collection \<lparr>full_document = ''updateLookup'', resume_after = None\<rparr>
        = Inr example_change_stream \<and>
      drain (Suc (Suc 0)) example_library
        (case add_record_metadata (config example_log_based_stream) of
           None \<Rightarrow> False | Some b \<Rightarrow> b)
        (set [''insert'', ''update'']) example_change_stream
        \<lparr>polls = 0, has_seen_a_record = False, keep_open = True, out = []\<rparr>
        = (example_seen_state, Draining) \<and>
      out example_seen_state \<noteq> [] \<and> keep_open example_seen_state \<and>
      alive example_change_stream (polls example_seen_state) \<and>
      try_next example_change_stream (polls example_seen_state) = None"
    unfolding example_two_polls
    by (simp add: example_log_based_stream_def example_watched_collection_def
          example_change_stream_def example_seen_state_def REPLICATION_LOG_BASED_def)
  show "\<forall>m. outcome (get_records example_library example_log_based_stream
                     example_watched_collection None (Suc (Suc 0) + Suc (Suc m))) = Exhausted \<and>
          yielded (get_records example_library example_log_based_stream
                     example_watched_collection None (Suc (Suc 0) + Suc (Suc m)))
            = out example_seen_state"
    by (rule log_based_none_polls [THEN conjunct2, THEN conjunct2, THEN conjunct2,
          THEN conjunct2, THEN mp, OF h])
qed

lemma parsed_record_log_based_operationType:
  "parsed_record_log_based lib md k t ev = Inr r \<Longrightarrow> map_of r ''operationType'' = Some (Text t)"
  by (auto simp add: parsed_record_log_based_def Let_def split: option.splits)

lemma loop_body_out:
  assumes "loop_body lib md allow cs s = Inr s'"
    and "\<forall>r\<in>set (out s). \<exists>t\<in>allow. map_of r ''operationType'' = Some (Text t)"
  shows "\<forall>r\<in>set (out s'). \<exists>t\<in>allow. map_of r ''operationType'' = Some (Text t)"
  using assms
  by (auto simp add: loop_body_def Let_def parsed_record_log_based_operationType
        split: option.splits if_splits sum.splits)

lemma loop_body_out_raised:
  assumes "loop_body lib md allow cs s = Inl (e, s')"
    and "\<forall>r\<in>set (out s). \<exists>t\<in>allow. map_of r ''operationType'' = Some (Text t)"
  shows "\<forall>r\<in>set (out s'). \<exists>t\<in>allow. map_of r ''operationType'' = Some (Text t)"
  using assms
  by (auto simp add: loop_body_def Let_def split: option.splits if_splits sum.splits)

lemma drain_out:
  "\<forall>r\<in>set (out s). \<exists>t\<in>allow. map_of r ''operationType'' = Some (Text t) \<Longrightarrow>
   \<forall>r\<in>set (out (fst (drain fuel lib md allow cs s))).
      \<exists>t\<in>allow. map_of r ''operationType'' = Some (Text t)"
proof (induction fuel arbitrary: s)
  case 0
  then show ?case by simp
next
  case (Suc fuel)
  show ?case
  proof (cases "alive cs (polls s) \<and> keep_open s")
    case False
    then show ?thesis using Suc.prems by auto
  next
    case True
    show ?thesis
    proof (cases "loop_body lib md allow cs s")
      case (Inl p)
      then obtain e s' where b: "loop_body lib md allow cs s = Inl (e, s')" by (cases p) simp
      from loop_body_out_raised [OF b Suc.prems] show ?thesis using True b by simp
    next
      case (Inr s')
      from Suc.IH [OF loop_body_out [OF Inr Suc.prems]] show ?thesis using True Inr by simp
    qed
  qed
qed

lemma drain_numeral:
  "drain (numeral k) lib md allow cs s =
     (if alive cs (polls s) \<and> keep_open s then
        (case loop_body lib md allow cs s of
           Inl (e, s') \<Rightarrow> (s', Raised e)
         | Inr s' \<Rightarrow> drain (pred_numeral k) lib md allow cs s')
      else (s, Exhausted))"
  by (simp add: numeral_eq_Suc)

lemma example_scenario_C:
  "get_records example_library example_log_based_stream example_watched_collection None 5 =
     \<lparr>yielded = [[(''_id'', Text ''8265AB''),
                  (''document'', Document \<lparr>doc_id = 4, doc_rest = ''four''\<rparr>),
                  (''operationType'', Text ''insert''),
                  (''clusterTime'', Text ''2024-05-01T10:00:00''),
                  (''ns'', Namespace ''db.things''),
                  (''_sdc_extracted_at'', Text ''2024-05-01T10:00:00''),
                  (''_sdc_batched_at'', Text ''2024-05-02T08:30:00'')]],
      outcome = Exhausted, log = [],
      watched = Some \<lparr>full_document = ''updateLookup'', resume_after = None\<rparr>\<rparr>"
  by (simp add: get_records_def example_library_def example_log_based_stream_def
        example_watched_collection_def example_change_stream_def example_delete_event_def
        example_insert_event_def REPLICATION_INCREMENTAL_def REPLICATION_LOG_BASED_def
        loop_body_def parsed_record_log_based_def Let_def drain_numeral)

text \<open>
  Claim C6. In LogBased mode, an event whose \<^verbatim>\<open>operationType\<close> is not in the
  allow-list leaves the output and both flags as they were; every record that
  \<^verbatim>\<open>get_records\<close> yields carries an operation type of the allow-list; and when every
  poll of a live cursor returns either nothing or such an event, \<^verbatim>\<open>get_records\<close>
  is still draining after any number of iterations and has yielded nothing.
\<close>

theorem excluded_operation_types_discarded:
  "(try_next cs (polls s) = Some ev \<and> operationType ev = Some t \<and> t \<notin> allow \<longrightarrow>
      loop_body lib md allow cs s = Inr (s\<lparr>polls := Suc (polls s)\<rparr>))
   \<and> (replication_method self = REPLICATION_LOG_BASED \<and>
      operation_types (config self) = Some ops \<longrightarrow>
      (\<forall>r\<in>set (yielded (get_records lib' self coll bookmark fuel)).
          \<exists>t\<in>set ops. map_of r ''operationType'' = Some (Text t)))
   \<and> (replication_method self = REPLICATION_LOG_BASED \<and>
      operation_types (config self) = Some ops \<and>
      watch coll \<lparr>full_document = ''updateLookup'', resume_after = bookmark\<rparr> = Inr cs' \<and>
      (\<forall>k. alive cs' k \<and>
           (try_next cs' k = None \<or>
            (\<exists>ev t. try_next cs' k = Some ev \<and> operationType ev = Some t \<and> t \<notin> set ops))) \<longrightarrow>
      (\<forall>n. outcome (get_records lib' self coll bookmark n) = Draining \<and>
           yielded (get_records lib' self coll bookmark n) = []))"
proof (intro conjI impI allI)
  assume "try_next cs (polls s) = Some ev \<and> operationType ev = Some t \<and> t \<notin> allow"
  then show "loop_body lib md allow cs s = Inr (s\<lparr>polls := Suc (polls s)\<rparr>)"
    by (intro loop_body_excluded) auto
next
  assume h: "replication_method self = REPLICATION_LOG_BASED \<and>
      operation_types (config self) = Some ops"
  let ?md = "case add_record_metadata (config self) of None \<Rightarrow> False | Some b \<Rightarrow> b"
  let ?opts = "\<lparr>full_document = ''updateLookup'', resume_after = bookmark\<rparr>"
  show "\<forall>r\<in>set (yielded (get_records lib' self coll bookmark fuel)).
          \<exists>t\<in>set ops. map_of r ''operationType'' = Some (Text t)"
  proof (cases "watch coll ?opts")
    case (Inl e)
    with h show ?thesis by (simp add: get_records_def Let_def REPLICATION_distinct)
  next
    case (Inr w)
    have "yielded (get_records lib' self coll bookmark fuel)
          = out (fst (drain fuel lib' ?md (set ops) w
                   \<lparr>polls = 0, has_seen_a_record = False, keep_open = True, out = []\<rparr>))"
      using h Inr by (simp add: get_records_log_based split: prod.splits)
    moreover have "\<forall>r\<in>set (out (fst (drain fuel lib' ?md (set ops) w
                   \<lparr>polls = 0, has_seen_a_record = False, keep_open = True, out = []\<rparr>))).
                \<exists>t\<in>set ops. map_of r ''operationType'' = Some (Text t)"
      by (rule drain_out) simp
    ultimately show ?thesis by simp
  qed
next
  fix n
  assume h: "replication_method self = REPLICATION_LOG_BASED \<and>
      operation_types (config self) = Some ops \<and>
      watch coll \<lparr>full_document = ''updateLookup'', resume_after = bookmark\<rparr> = Inr cs' \<and>
      (\<forall>k. alive cs' k \<and>
           (try_next cs' k = None \<or>
            (\<exists>ev t. try_next cs' k = Some ev \<and> operationType ev = Some t \<and> t \<notin> set ops)))"
  let ?md = "case add_record_metadata (config self) of None \<Rightarrow> False | Some b \<Rightarrow> b"
  have d: "drain n lib' ?md (set ops) cs'
             \<lparr>polls = 0, has_seen_a_record = False, keep_open = True, out = []\<rparr>
             = (\<lparr>polls = n, has_seen_a_record = False, keep_open = True, out = []\<rparr>, Draining)"
    using drain_idle [of "\<lparr>polls = 0, has_seen_a_record = False, keep_open = True, out = []\<rparr>"
            cs' "set ops" n lib' ?md] h
    by simp
  from h have g: "get_records lib' self coll bookmark n =
     (case drain n lib' ?md (set ops) cs'
             \<lparr>polls = 0, has_seen_a_record = False, keep_open = True, out = []\<rparr> of
        (s, oc) \<Rightarrow> \<lparr>yielded = out s, outcome = oc, log = [],
                     watched = Some \<lparr>full_document = ''updateLookup'',
                                     resume_after = bookmark\<rparr>\<rparr>)"
    by (intro get_records_log_based) auto
  show "outcome (get_records lib' self coll bookmark n) = Draining" by (simp add: g d)
  show "yielded (get_records lib' self coll bookmark n) = []" by (simp add: g d)
qed

theorem excluded_operation_types_discarded_witness:
  "loop_body example_library True {''insert'', ''update''} example_change_stream
      example_initial_state
     = Inr (example_initial_state\<lparr>polls := Suc (polls example_initial_state)\<rparr>)
   \<and> yielded (get_records example_library example_log_based_stream
                example_watched_collection None 5)
     = [[(''_id'', Text ''8265AB''),
         (''document'', Document \<lparr>doc_id = 4, doc_rest = ''four''\<rparr>),
         (''operationType'', Text ''insert''),
         (''clusterTime'', Text ''2024-05-01T10:00:00''),
         (''ns'', Namespace ''db.things''),
         (''_sdc_extracted_at'', Text ''2024-05-01T10:00:00''),
         (''_sdc_batched_at'', Text ''2024-05-02T08:30:00'')]]
   \<and> (\<exists>t\<in>set [''insert'', ''update''].
         map_of (hd (yielded (get_records example_library example_log_based_stream
                                example_watched_collection None 5))) ''operationType''
           = Some (Text t))
   \<and> (\<forall>n. outcome (get_records example_library example_log_based_stream
                     example_deletes_collection None n) = Draining \<and>
          yielded (get_records example_library example_log_based_stream
                     example_deletes_collection None n) = [])"
proof (intro conjI)
  show "loop_body example_library True {''insert'', ''update''} example_change_stream
      example_initial_state
     = Inr (example_initial_state\<lparr>polls := Suc (polls example_initial_state)\<rparr>)"
    by (rule excluded_operation_types_discarded
          [where ev = example_delete_event and t = "''delete''",
           THEN conjunct1, THEN mp])
       (simp add: example_change_stream_def example_initial_state_def
          example_delete_event_def)
  show y: "yielded (get_records example_library example_log_based_stream
                example_watched_collection None 5)
     = [[(''_id'', Text ''8265AB''),
         (''document'', Document \<lparr>doc_id = 4, doc_rest = ''four''\<rparr>),
         (''operationType'', Text ''insert''),
         (''clusterTime'', Text ''2024-05-01T10:00:00''),
         (''ns'', Namespace ''db.things''),
         (''_sdc_extracted_at'', Text ''2024-05-01T10:00:00''),
         (''_sdc_batched_at'', Text ''2024-05-02T08:30:00'')]]"
    by (simp add: example_scenario_C)
  have "\<forall>r\<in>set (yielded (get_records example_library example_log_based_stream
                example_watched_collection None 5)).
          \<exists>t\<in>set [''insert'', ''update'']. map_of r ''operationType'' = Some (Text t)"
    by (rule excluded_operation_types_discarded
          [THEN conjunct2, THEN conjunct1, THEN mp])
       (simp add: example_log_based_stream_def REPLICATION_LOG_BASED_def)
  then show "\<exists>t\<in>set [''insert'', ''update''].
         map_of (hd (yielded (get_records example_library example_log_based_stream
                                example_watched_collection None 5))) ''operationType''
           = Some (Text t)"
    unfolding y by (simp only: list.set_intros list.sel ball_simps)
  show "\<forall>n. outcome (get_records example_library example_log_based_stream
                     example_deletes_collection None n) = Draining \<and>
          yielded (get_records example_library example_log_based_stream
                     example_deletes_collection None n) = []"
    by (rule excluded_operation_types_discarded
          [where ops = "[''insert'', ''update'']" and cs' = example_deletes_change_stream,
           THEN conjunct2, THEN conjunct2, THEN mp])
       (simp add: example_log_based_stream_def example_deletes_collection_def
          example_deletes_change_stream_def example_delete_event_def REPLICATION_LOG_BASED_def)
qed

lemma parsed_record_log_based_complete:
  assumes "clusterTime ev = Some ts" and "event_id ev = Some token"
    and "token_data token = Some data" and "fullDocument ev = Some full" and "ns ev = Some n"
  shows "\<exists>r. parsed_record_log_based lib md k t ev = Inr r \<and>
           map_of r ''_id'' = Some (Text data) \<and>
           map_of r ''document'' = Some (case full of None \<Rightarrow> Null | Some d \<Rightarrow> Document d) \<and>
           map_of r ''operationType'' = Some (Text t) \<and>
           map_of r ''clusterTime'' = Some (Text (as_datetime_isoformat lib ts)) \<and>
           map_of r ''ns'' = Some (Namespace n)"
  using assms by (simp add: parsed_record_log_based_def Let_def)

lemma parsed_record_log_based_no_fullDocument:
  assumes "clusterTime ev = Some ts" and "event_id ev = Some token"
    and "token_data token = Some data" and "fullDocument ev = None"
  shows "parsed_record_log_based lib md k t ev = Inl (KeyError ''fullDocument'')"
  using assms by (simp add: parsed_record_log_based_def Let_def)

text \<open>
  Claim C7. The claim says that every event whose operation type is in the allow-list,
  delete events included, is normalised without a failing field extraction. The source
  reads \<^verbatim>\<open>record["fullDocument"]\<close> for every such event, and a delete event carries
  no full document: with \<^verbatim>\<open>delete\<close> in the allow-list, the first poll of a delete
  event raises KeyError and nothing is yielded. (The source has a branch for delete
  events, which sets \<^verbatim>\<open>_sdc_deleted_at\<close>, after this read.)
\<close>

theorem delete_event_raises_KeyError:
  "operationType example_delete_event = Some ''delete'' \<and>
   operation_types (config example_delete_stream) = Some [''insert'', ''delete''] \<and>
   get_records example_library example_delete_stream example_watched_collection None 5 =
     \<lparr>yielded = [], outcome = Raised (KeyError ''fullDocument''), log = [],
      watched = Some \<lparr>full_document = ''updateLookup'', resume_after = None\<rparr>\<rparr>"
  by (simp add: get_records_def example_library_def example_delete_stream_def
        example_watched_collection_def example_change_stream_def example_delete_event_def
        REPLICATION_INCREMENTAL_def REPLICATION_LOG_BASED_def
        loop_body_def parsed_record_log_based_def Let_def drain_numeral)

text \<open>
  Claim C10. In LogBased mode, when the configuration has no \<^verbatim>\<open>operation_types\<close>,
  \<^verbatim>\<open>get_records\<close> raises the TypeError of \<^verbatim>\<open>set(None)\<close>: no change stream has
  been opened and no record yielded.
\<close>

theorem log_based_without_operation_types:
  assumes "replication_method self = REPLICATION_LOG_BASED"
    and "operation_types (config self) = None"
  shows "get_records lib self coll bookmark fuel =
     \<lparr>yielded = [], outcome = Raised TypeError_NoneType_not_iterable, log = [],
      watched = None\<rparr>"
  using assms by (simp add: get_records_def Let_def REPLICATION_distinct)

theorem log_based_without_operation_types_witness:
  "get_records example_library example_unconfigured_stream example_watched_collection
      (Some ''8265AA'') 5 =
     \<lparr>yielded = [], outcome = Raised TypeError_NoneType_not_iterable, log = [],
      watched = None\<rparr>"
  by (rule log_based_without_operation_types)
     (simp_all add: example_unconfigured_stream_def REPLICATION_LOG_BASED_def)

end
